theory Spec2Isabelle
  imports Main "HOL-Library.Word"
begin

unbundle bit_operations_syntax

section \<open>Go values used by main.go\<close>

text \<open>
  A Go \<open>string\<close> is a sequence of bytes and is modelled as \<open>string\<close> (a list of 8-bit
  characters); \<open>[]byte(s)\<close> is \<open>map of_char s\<close>. \<open>uint32\<close> is \<open>32 word\<close>. A Go \<open>error\<close>
  value is \<open>error option\<close>, \<open>None\<close> being \<open>nil\<close>.
\<close>

type_synonym byte = "8 word"
type_synonym uint32 = "32 word"

datatype error = Error string

definition bytes_of :: "string \<Rightarrow> byte list" where
  "bytes_of s = map of_char s"

definition newline :: string where
  "newline = [CHR 0x0A]"

subsection \<open>encoding/base64: \<open>StdEncoding.EncodeToString\<close>\<close>

definition encodeStd :: string where
  "encodeStd = ''ABCDEFGHIJKLMNOPQRSTUVWXYZabcdefghijklmnopqrstuvwxyz0123456789+/''"

text \<open>
  Three source bytes give four characters of the alphabet; a remainder of one or two
  bytes gives two or three characters padded with \<open>=\<close> to four.
\<close>

fun EncodeToString :: "byte list \<Rightarrow> string" where
  "EncodeToString [] = []"
| "EncodeToString [a] =
     (let val = unat a * 65536
      in [encodeStd ! (val div 262144 mod 64), encodeStd ! (val div 4096 mod 64),
          CHR ''='', CHR ''=''])"
| "EncodeToString [a, b] =
     (let val = unat a * 65536 + unat b * 256
      in [encodeStd ! (val div 262144 mod 64), encodeStd ! (val div 4096 mod 64),
          encodeStd ! (val div 64 mod 64), CHR ''=''])"
| "EncodeToString (a # b # c # rest) =
     (let val = unat a * 65536 + unat b * 256 + unat c
      in [encodeStd ! (val div 262144 mod 64), encodeStd ! (val div 4096 mod 64),
          encodeStd ! (val div 64 mod 64), encodeStd ! (val mod 64)]
         @ EncodeToString rest)"

subsection \<open>crypto/sha1\<close>

text \<open>
  SHA-1 as FIPS 180-4 defines it, on 32-bit words: the message is padded with \<open>0x80\<close>,
  zero bytes and its bit length to a multiple of 64 bytes, cut into big-endian words, and
  every block of 16 words goes through 80 rounds. The message schedule is kept as a window
  of 16 words: the head is the word of the current round, and the word 16 rounds ahead is
  appended.
\<close>

definition RotateLeft32 :: "uint32 \<Rightarrow> nat \<Rightarrow> uint32" where
  "RotateLeft32 x k = push_bit k x OR drop_bit (32 - k) x"

definition putUint64 :: "nat \<Rightarrow> byte list" where
  "putUint64 n = map (\<lambda>i. of_nat (n div 256 ^ i mod 256)) [7, 6, 5, 4, 3, 2, 1, 0]"

definition putUint32 :: "uint32 \<Rightarrow> byte list" where
  "putUint32 x = [ucast (drop_bit 24 x), ucast (drop_bit 16 x), ucast (drop_bit 8 x), ucast x]"

definition sha1_pad :: "byte list \<Rightarrow> byte list" where
  "sha1_pad p =
     p @ [0x80] @ replicate ((119 - length p mod 64) mod 64) 0 @ putUint64 (8 * length p)"

fun sha1_words :: "byte list \<Rightarrow> uint32 list" where
  "sha1_words (a # b # c # d # rest) =
     (push_bit 24 (ucast a) OR push_bit 16 (ucast b) OR push_bit 8 (ucast c) OR ucast d)
       # sha1_words rest"
| "sha1_words _ = []"

type_synonym sha1_regs = "uint32 \<times> uint32 \<times> uint32 \<times> uint32 \<times> uint32"

definition sha1_f :: "nat \<Rightarrow> uint32 \<Rightarrow> uint32 \<Rightarrow> uint32 \<Rightarrow> uint32" where
  "sha1_f i b c d =
     (if i < 20 then (b AND c) OR (NOT b AND d)
      else if i < 40 then b XOR c XOR d
      else if i < 60 then (b AND c) OR (b AND d) OR (c AND d)
      else b XOR c XOR d)"

definition sha1_K :: "nat \<Rightarrow> uint32" where
  "sha1_K i =
     (if i < 20 then 0x5A827999
      else if i < 40 then 0x6ED9EBA1
      else if i < 60 then 0x8F1BBCDC
      else 0xCA62C1D6)"

fun sha1_step :: "nat \<Rightarrow> uint32 \<Rightarrow> sha1_regs \<Rightarrow> sha1_regs" where
  "sha1_step i w (a, b, c, d, e) =
     (RotateLeft32 a 5 + sha1_f i b c d + e + w + sha1_K i, a, RotateLeft32 b 30, c, d)"

definition sha1_next :: "uint32 list \<Rightarrow> uint32 list" where
  "sha1_next q = tl q @ [RotateLeft32 (q ! 13 XOR q ! 8 XOR q ! 2 XOR q ! 0) 1]"

fun sha1_rounds :: "nat \<Rightarrow> nat \<Rightarrow> uint32 list \<Rightarrow> sha1_regs \<Rightarrow> sha1_regs" where
  "sha1_rounds 0 i q r = r"
| "sha1_rounds (Suc n) i q r = sha1_rounds n (i + 1) (sha1_next q) (sha1_step i (hd q) r)"

fun sha1_add :: "sha1_regs \<Rightarrow> sha1_regs \<Rightarrow> sha1_regs" where
  "sha1_add (h0, h1, h2, h3, h4) (a, b, c, d, e) = (h0 + a, h1 + b, h2 + c, h3 + d, h4 + e)"

fun sha1_blocks :: "nat \<Rightarrow> sha1_regs \<Rightarrow> uint32 list \<Rightarrow> sha1_regs" where
  "sha1_blocks 0 h ws = h"
| "sha1_blocks (Suc n) h ws =
     sha1_blocks n (sha1_add h (sha1_rounds 80 0 (take 16 ws) h)) (drop 16 ws)"

fun sha1_out :: "sha1_regs \<Rightarrow> byte list" where
  "sha1_out (h0, h1, h2, h3, h4) =
     putUint32 h0 @ putUint32 h1 @ putUint32 h2 @ putUint32 h3 @ putUint32 h4"

definition sha1_sum :: "byte list \<Rightarrow> byte list" where
  "sha1_sum p =
     (let ws = sha1_words (sha1_pad p)
      in sha1_out (sha1_blocks (length ws div 16)
            (0x67452301, 0xEFCDAB89, 0x98BADCFE, 0x10325476, 0xC3D2E1F0) ws))"

text \<open>
  A \<open>hash.Hash\<close> is modelled by the bytes written to it so far. \<open>sha1.New()\<close> has nothing
  written. \<open>h.Sum(b)\<close> appends the digest of what was written to \<open>h\<close> to the slice \<open>b\<close> and
  returns the result; it does not write \<open>b\<close> to the hash.
\<close>

definition sha1_New :: "byte list" where
  "sha1_New = []"

definition hash_Sum :: "byte list \<Rightarrow> byte list \<Rightarrow> byte list" where
  "hash_Sum h b = b @ sha1_sum h"

subsection \<open>fmt\<close>

definition digits :: string where
  "digits = ''0123456789''"

function FormatUint :: "nat \<Rightarrow> string" where
  "FormatUint n =
     (if n < 10 then [digits ! n] else FormatUint (n div 10) @ [digits ! (n mod 10)])"
  by pat_completeness auto
termination
  by (relation "measure id") auto

declare FormatUint.simps [simp del]

section \<open>go-imap values\<close>

text \<open>
  \<open>imap.Address\<close> and \<open>imap.Envelope\<close> with their fields, and the fields of \<open>imap.Message\<close>
  and \<open>imap.MailboxStatus\<close> that main.go reads.
  \<open>Address()\<close> is the mailbox name, an \<open>@\<close> and the host name. The envelope's \<open>Date\<close> is a
  \<open>time.Time\<close>; its type is left as the parameter \<open>'t\<close>, and every function that prints
  it takes \<open>Date.String()\<close> as the parameter \<open>timeString\<close>. \<open>Envelope\<close> of a message is a
  pointer: \<open>None\<close> is \<open>nil\<close>, which a FETCH response without the ENVELOPE item leaves.
\<close>

record Address =
  PersonalName :: string
  AtDomainList :: string
  MailboxName :: string
  HostName :: string

definition Address_string :: "Address \<Rightarrow> string" where
  "Address_string addr = MailboxName addr @ ''@'' @ HostName addr"

record 't Envelope =
  Date :: 't
  Subject :: string
  From :: "Address list"
  Sender :: "Address list"
  ReplyTo :: "Address list"
  To :: "Address list"
  Cc :: "Address list"
  Bcc :: "Address list"
  InReplyTo :: string
  MessageId :: string

record 't Message =
  Uid :: uint32
  Envelope :: "'t Envelope option"

record MailboxStatus =
  UidValidity :: uint32

text \<open>
  An \<open>imap.SeqSet\<close> is a list of ranges (start, stop). main.go only ever adds one number
  or one range to a fresh, empty set.
\<close>

type_synonym SeqSet = "(uint32 \<times> uint32) list"

definition AddRange :: "SeqSet \<Rightarrow> uint32 \<Rightarrow> uint32 \<Rightarrow> SeqSet" where
  "AddRange s start stop = s @ [(start, stop)]"

definition AddNum :: "SeqSet \<Rightarrow> uint32 \<Rightarrow> SeqSet" where
  "AddNum s n = s @ [(n, n)]"

definition MaxUint32 :: uint32 where
  "MaxUint32 = 0xFFFFFFFF"

datatype FetchItem = FetchUid | FetchEnvelope

datatype FlagsOp = SetFlags | AddFlags | RemoveFlags

text \<open>\<open>imap.FormatFlagsOp(op, silent)\<close>, kept as the pair it is built from.\<close>

type_synonym StoreItem = "FlagsOp \<times> bool"

definition FormatFlagsOp :: "FlagsOp \<Rightarrow> bool \<Rightarrow> StoreItem" where
  "FormatFlagsOp op silent = (op, silent)"

definition DeletedFlag :: string where
  "DeletedFlag = CHR 0x5C # ''Deleted''"

section \<open>The message identifier of FindDups (main.go, lines 122 to 163)\<close>

text \<open>The contents of \<open>builder\<close> when line 162 reads it.\<close>

definition builder :: "('t \<Rightarrow> string) \<Rightarrow> 't Envelope \<Rightarrow> string" where
  "builder timeString env =
     ''date:'' @ timeString (Date env)
     @ newline @ ''subject:'' @ Subject env
     @ concat (map (\<lambda>f. newline @ ''from:'' @ Address_string f) (From env))
     @ concat (map (\<lambda>f. newline @ ''sender:'' @ Address_string f) (Sender env))
     @ concat (map (\<lambda>f. newline @ ''reply-to:'' @ Address_string f) (ReplyTo env))
     @ concat (map (\<lambda>f. newline @ ''to:'' @ Address_string f) (To env))
     @ concat (map (\<lambda>f. newline @ ''cc:'' @ Address_string f) (Cc env))
     @ concat (map (\<lambda>f. newline @ ''bcc:'' @ Address_string f) (Bcc env))
     @ newline @ ''in-reply-to:'' @ InReplyTo env"

text \<open>The value of the variable \<open>messageID\<close> after line 163.\<close>

definition messageID :: "('t \<Rightarrow> string) \<Rightarrow> bool \<Rightarrow> 't Envelope \<Rightarrow> string" where
  "messageID timeString ignoreMessageID env =
     (let messageID = MessageId env;
          messageID = (if ignoreMessageID then [] else messageID)
      in if messageID = []
         then let hash = sha1_New
              in EncodeToString (hash_Sum hash (bytes_of (builder timeString env)))
         else messageID)"

section \<open>The IMAP client\<close>

text \<open>
  \<open>client.Client\<close> talks to a remote server. It is modelled by the answers the server
  gives: one function per request main.go makes, from the arguments and a connection
  state \<open>'s\<close> to the result and the next connection state. \<open>UidFetch\<close> answers with the
  messages it sends on the channel before closing it, and with its error. Every request is
  recorded with its arguments and its error in \<open>trace\<close>, in the order the requests are made.
  \<open>stdout\<close> is what the program has printed.
\<close>

datatype call =
    CallSelect string bool
  | CallUidFetch SeqSet "FetchItem list"
  | CallUidStore SeqSet StoreItem "string list"
  | CallExpunge

type_synonym event = "call \<times> error option"

record ('s, 't) Client =
  select_rsp :: "string \<Rightarrow> bool \<Rightarrow> 's \<Rightarrow> (error + MailboxStatus) \<times> 's"
  fetch_rsp :: "SeqSet \<Rightarrow> FetchItem list \<Rightarrow> 's \<Rightarrow> ('t Message list \<times> error option) \<times> 's"
  store_rsp :: "SeqSet \<Rightarrow> StoreItem \<Rightarrow> string list \<Rightarrow> 's \<Rightarrow> error option \<times> 's"
  expunge_rsp :: "'s \<Rightarrow> error option \<times> 's"

record 's world =
  conn :: 's
  trace :: "event list"
  stdout :: string

text \<open>\<open>c.Select(name, readOnly)\<close>: the second argument asks for a read-only selection.\<close>

definition Select ::
  "('s, 't) Client \<Rightarrow> string \<Rightarrow> bool \<Rightarrow> 's world \<Rightarrow> (error + MailboxStatus) \<times> 's world" where
  "Select c name readOnly w =
     (case select_rsp c name readOnly (conn w) of
        (r, s) \<Rightarrow>
          (r, w\<lparr>conn := s,
                 trace := trace w @ [(CallSelect name readOnly,
                                      case r of Inl err \<Rightarrow> Some err | Inr _ \<Rightarrow> None)]\<rparr>))"

definition UidFetch ::
  "('s, 't) Client \<Rightarrow> SeqSet \<Rightarrow> FetchItem list \<Rightarrow> 's world
     \<Rightarrow> ('t Message list \<times> error option) \<times> 's world" where
  "UidFetch c seqset items w =
     (case fetch_rsp c seqset items (conn w) of
        ((msgs, err), s) \<Rightarrow>
          ((msgs, err), w\<lparr>conn := s, trace := trace w @ [(CallUidFetch seqset items, err)]\<rparr>))"

definition UidStore ::
  "('s, 't) Client \<Rightarrow> SeqSet \<Rightarrow> StoreItem \<Rightarrow> string list \<Rightarrow> 's world
     \<Rightarrow> error option \<times> 's world" where
  "UidStore c seqset item flags w =
     (case store_rsp c seqset item flags (conn w) of
        (err, s) \<Rightarrow>
          (err, w\<lparr>conn := s, trace := trace w @ [(CallUidStore seqset item flags, err)]\<rparr>))"

definition Expunge :: "('s, 't) Client \<Rightarrow> 's world \<Rightarrow> error option \<times> 's world" where
  "Expunge c w =
     (case expunge_rsp c (conn w) of
        (err, s) \<Rightarrow> (err, w\<lparr>conn := s, trace := trace w @ [(CallExpunge, err)]\<rparr>))"

section \<open>FindDups\<close>

text \<open>
  \<open>fmt.Println\<close> writes its operands separated by spaces and a newline; \<open>Sprintf_line\<close> is
  the text of \<open>fmt.Printf("%s: %s %d %s:", mbox, msg.Envelope.Subject, msg.Uid, messageID)\<close>.
\<close>

fun Sprintln :: "string list \<Rightarrow> string" where
  "Sprintln [] = newline"
| "Sprintln [a] = a @ newline"
| "Sprintln (a # b # rest) = a @ '' '' @ Sprintln (b # rest)"

definition Sprintf_line :: "string \<Rightarrow> string \<Rightarrow> uint32 \<Rightarrow> string \<Rightarrow> string" where
  "Sprintf_line mbox subject uid mid =
     mbox @ '': '' @ subject @ '' '' @ FormatUint (unat uid) @ '' '' @ mid @ '':''"

text \<open>
  The variables of the loop of lines 118 to 183: the map \<open>uniqueIDs\<close> (only its keys
  matter, so it is a set), the slice \<open>dups\<close>, and what the loop has printed.
\<close>

record scan =
  uniqueIDs :: "string set"
  dups :: "uint32 list"
  printed :: string

text \<open>
  One iteration, for the message \<open>msg\<close> received from \<open>msgChan\<close>. Reading
  \<open>msg.Envelope.MessageId\<close> through a nil \<open>Envelope\<close> panics: the result is \<open>None\<close>.
\<close>

definition FindDups_body ::
  "('t \<Rightarrow> string) \<Rightarrow> string \<Rightarrow> bool \<Rightarrow> bool \<Rightarrow> 't Message \<Rightarrow> scan \<Rightarrow> scan option" where
  "FindDups_body timeString mbox ignoreMessageID listOnlyDups msg st =
     (case Envelope msg of
        None \<Rightarrow> None
      | Some env \<Rightarrow>
          let mid = messageID timeString ignoreMessageID env;
              line = Sprintf_line mbox (Subject env) (Uid msg) mid;
              st = (if \<not> listOnlyDups then st\<lparr>printed := printed st @ line\<rparr> else st)
          in if mid \<in> uniqueIDs st
             then let st = st\<lparr>dups := dups st @ [Uid msg]\<rparr>;
                      st = (if listOnlyDups then st\<lparr>printed := printed st @ line\<rparr> else st);
                      st = st\<lparr>printed := printed st @ Sprintln [''duplicate'']\<rparr>;
                      st = (if listOnlyDups
                            then st\<lparr>printed := printed st @ Sprintln [[]]\<rparr> else st)
                  in Some st
             else let st = (if \<not> listOnlyDups
                            then st\<lparr>printed := printed st @ Sprintln [[]]\<rparr> else st)
                  in Some (st\<lparr>uniqueIDs := insert mid (uniqueIDs st)\<rparr>))"

text \<open>
  \<open>for msg := range msgChan\<close>, over the messages the fetch sends before it closes the
  channel. \<open>Inr\<close> is the state when the channel is exhausted, \<open>Inl\<close> the state at a panic.
\<close>

fun FindDups_loop ::
  "('t \<Rightarrow> string) \<Rightarrow> string \<Rightarrow> bool \<Rightarrow> bool \<Rightarrow> 't Message list \<Rightarrow> scan \<Rightarrow> scan + scan" where
  "FindDups_loop timeString mbox ignoreMessageID listOnlyDups [] st = Inr st"
| "FindDups_loop timeString mbox ignoreMessageID listOnlyDups (msg # msgChan) st =
     (case FindDups_body timeString mbox ignoreMessageID listOnlyDups msg st of
        None \<Rightarrow> Inl st
      | Some st' \<Rightarrow> FindDups_loop timeString mbox ignoreMessageID listOnlyDups msgChan st')"

text \<open>
  The result is \<open>None\<close> when the function panics, and otherwise the pair \<open>(uids, err)\<close> it
  returns. The goroutine of lines 110 to 116 sends the error of \<open>UidFetch\<close>, if any, on
  \<open>errChan\<close> and closes it; the loop ends when \<open>msgChan\<close> is closed, and line 184 then
  receives that error, or nil from the closed channel. One producer and one consumer
  exchange the messages in order, so the result is that of the fetch followed by the loop.
\<close>

definition FindDups ::
  "('s, 't) Client \<Rightarrow> ('t \<Rightarrow> string) \<Rightarrow> string \<Rightarrow> bool \<Rightarrow> bool \<Rightarrow> 's world
     \<Rightarrow> (uint32 list \<times> error option) option \<times> 's world" where
  "FindDups c timeString mbox ignoreMessageID listOnlyDups w =
     (case Select c mbox False w of
        (Inl err, w) \<Rightarrow> (Some ([], Some err), w)
      | (Inr st, w) \<Rightarrow>
          let w = w\<lparr>stdout := stdout w
                       @ Sprintln [''MBOX UID'', FormatUint (unat (UidValidity st))]\<rparr>;
              seqset = AddRange [] 1 MaxUint32;
              items = [FetchUid, FetchEnvelope]
          in case UidFetch c seqset items w of
               ((msgChan, err), w) \<Rightarrow>
                 (case FindDups_loop timeString mbox ignoreMessageID listOnlyDups msgChan
                         \<lparr>uniqueIDs = {}, dups = [], printed = stdout w\<rparr> of
                    Inl st \<Rightarrow> (None, w\<lparr>stdout := printed st\<rparr>)
                  | Inr st \<Rightarrow> (Some (dups st, err), w\<lparr>stdout := printed st\<rparr>)))"

section \<open>RemoveDups\<close>

text \<open>The loop of lines 194 to 201: it returns at the first error of \<open>UidStore\<close>.\<close>

fun RemoveDups_loop ::
  "('s, 't) Client \<Rightarrow> uint32 list \<Rightarrow> 's world \<Rightarrow> error option \<times> 's world" where
  "RemoveDups_loop c [] w = (None, w)"
| "RemoveDups_loop c (uid # uids) w =
     (let seqSet = AddNum [] uid
      in case UidStore c seqSet (FormatFlagsOp AddFlags True) [DeletedFlag] w of
           (Some err, w) \<Rightarrow> (Some err, w)
         | (None, w) \<Rightarrow> RemoveDups_loop c uids w)"

definition RemoveDups ::
  "('s, 't) Client \<Rightarrow> string \<Rightarrow> uint32 list \<Rightarrow> 's world \<Rightarrow> error option \<times> 's world" where
  "RemoveDups c mbox uids w =
     (case Select c mbox False w of
        (Inl err, w) \<Rightarrow> (Some err, w)
      | (Inr _, w) \<Rightarrow>
          (case RemoveDups_loop c uids w of
             (Some err, w) \<Rightarrow> (Some err, w)
           | (None, w) \<Rightarrow> Expunge c w))"

section \<open>Terms of the specification\<close>

text \<open>
  The Fingerprint of a message record is the message identifier the loop computes from
  its envelope. The record at position \<open>i\<close> of a stream is seen before when an earlier
  record has the same key; the later occurrences of a stream are its records seen before,
  in the order of the stream. The mark-deleted request for one identifier is the
  \<open>UidStore\<close> call of line 197.
\<close>

definition fingerprint :: "('t \<Rightarrow> string) \<Rightarrow> bool \<Rightarrow> 't Message \<Rightarrow> string" where
  "fingerprint timeString ignoreMessageID msg =
     messageID timeString ignoreMessageID (the (Envelope msg))"

definition seen_before :: "('a \<Rightarrow> 'k) \<Rightarrow> 'a list \<Rightarrow> nat \<Rightarrow> bool" where
  "seen_before key xs i \<longleftrightarrow> key (xs ! i) \<in> key ` set (take i xs)"

definition later_occurrences :: "('a \<Rightarrow> 'k) \<Rightarrow> 'a list \<Rightarrow> 'a list" where
  "later_occurrences key xs = map (\<lambda>i. xs ! i) (filter (seen_before key xs) [0..<length xs])"

definition mark_deleted :: "uint32 \<Rightarrow> call" where
  "mark_deleted uid = CallUidStore [(uid, uid)] (AddFlags, True) [DeletedFlag]"

section \<open>Example values\<close>

text \<open>
  An envelope with subject \<open>hi\<close> and nothing else, messages built from it, and a server
  with fixed answers: \<open>sel\<close> is the error of Select, \<open>fetched\<close> the answer of UidFetch,
  \<open>bad\<close> the identifiers whose UidStore fails, \<open>exp\<close> the error of Expunge. The time has
  the type \<open>unit\<close> and prints as the empty string.
\<close>

definition ex_env :: "unit Envelope" where
  "ex_env = \<lparr>Date = (), Subject = ''hi'', From = [], Sender = [], ReplyTo = [], To = [],
             Cc = [], Bcc = [], InReplyTo = [], MessageId = []\<rparr>"

definition ex_time :: "unit \<Rightarrow> string" where
  "ex_time t = []"

definition ex_msg :: "uint32 \<Rightarrow> string \<Rightarrow> unit Message" where
  "ex_msg uid mid = \<lparr>Uid = uid, Envelope = Some (ex_env\<lparr>MessageId := mid\<rparr>)\<rparr>"

definition ex_client ::
  "error option \<Rightarrow> unit Message list \<times> error option \<Rightarrow> uint32 list \<Rightarrow> error option
     \<Rightarrow> (unit, unit) Client" where
  "ex_client sel fetched bad exp =
     \<lparr>select_rsp = (\<lambda>name readOnly s.
          (case sel of Some err \<Rightarrow> Inl err | None \<Rightarrow> Inr \<lparr>UidValidity = 1\<rparr>, s)),
      fetch_rsp = (\<lambda>seqset items s. (fetched, s)),
      store_rsp = (\<lambda>seqset item flags s.
          (if \<exists>uid \<in> set bad. seqset = [(uid, uid)] then Some (Error ''NO'') else None, s)),
      expunge_rsp = (\<lambda>s. (exp, s))\<rparr>"

definition ex_world :: "unit world" where
  "ex_world = \<lparr>conn = (), trace = [], stdout = []\<rparr>"

text \<open>
  The example envelope with one sender address, \<open>alice@example.org\<close>, under the
  personal name \<open>name\<close>.
\<close>

definition ex_from :: "string \<Rightarrow> unit Envelope" where
  "ex_from name =
     ex_env\<lparr>From := [\<lparr>PersonalName = name, AtDomainList = [],
                         MailboxName = ''alice'', HostName = ''example.org''\<rparr>]\<rparr>"

text \<open>
  Four messages, the second and the fourth with the same protocol message identifier.
\<close>

definition ex_msgs :: "unit Message list" where
  "ex_msgs = [ex_msg 1 ''<a>'', ex_msg 2 ''<b>'', ex_msg 3 ''<c>'', ex_msg 4 ''<b>'']"

section \<open>Evaluation of the library functions\<close>

lemma replicate_unfold: "replicate n x = (if n = 0 then [] else x # replicate (n - 1) x)"
  by (cases n) simp_all

lemma sha1_step_norm:
  "sha1_step i w (a, b, c, d, e) =
     (word_of_nat (unat (RotateLeft32 a 5 + sha1_f i b c d + e + w + sha1_K i)), a,
      word_of_nat (unat (RotateLeft32 b 30)), c, d)"
  by simp

lemma sha1_next_norm:
  "sha1_next q =
     tl q @ [word_of_nat (unat (RotateLeft32 (q ! 13 XOR q ! 8 XOR q ! 2 XOR q ! 0) 1))]"
  by (simp add: sha1_next_def)

lemma sha1_add_norm:
  "sha1_add (h0, h1, h2, h3, h4) (a, b, c, d, e) =
     (word_of_nat (unat (h0 + a)), word_of_nat (unat (h1 + b)), word_of_nat (unat (h2 + c)),
      word_of_nat (unat (h3 + d)), word_of_nat (unat (h4 + e)))"
  by simp

lemma sha1_rounds_unfold:
  "sha1_rounds n i q r =
     (if n = 0 then r else sha1_rounds (n - 1) (i + 1) (sha1_next q) (sha1_step i (hd q) r))"
  by (cases n) simp_all

lemma sha1_blocks_unfold:
  "sha1_blocks n h ws =
     (if n = 0 then h
      else sha1_blocks (n - 1) (sha1_add h (sha1_rounds 80 0 (take 16 ws) h)) (drop 16 ws))"
  by (cases n) simp_all

lemmas sha1_eval = sha1_sum_def sha1_pad_def putUint64_def putUint32_def replicate_unfold
  sha1_rounds_unfold sha1_blocks_unfold sha1_f_def sha1_K_def RotateLeft32_def sha1_next_norm
  sha1_step_norm sha1_add_norm Let_def

text \<open>
  The digest of the empty message, and the test vector \<open>abc\<close> of FIPS 180, as the five
  words of the final state.
\<close>

lemma sha1_sum_Nil:
  "sha1_sum [] = sha1_out (0xDA39A3EE, 0x5E6B4B0D, 0x3255BFEF, 0x95601890, 0xAFD80709)"
  by (simp add: sha1_eval del: sha1_step.simps sha1_add.simps)

lemma sha1_sum_abc:
  "sha1_sum (bytes_of ''abc'') =
     sha1_out (0xA9993E36, 0x4706816A, 0xBA3E2571, 0x7850C26C, 0x9CD0D89D)"
  by (simp add: bytes_of_def sha1_eval del: sha1_step.simps sha1_add.simps)

lemma length_sha1_sum: "length (sha1_sum p) = 20"
proof -
  have "length (sha1_out r) = 20" for r
    by (cases r) (simp add: putUint32_def)
  then show ?thesis
    by (simp add: sha1_sum_def Let_def)
qed

lemma length_EncodeToString: "length (EncodeToString bs) = 4 * ((length bs + 2) div 3)"
proof (induction bs rule: EncodeToString.induct)
  case (4 a b c rest)
  then show ?case
    by (simp add: Let_def) presburger
qed (simp_all add: Let_def)

lemma EncodeToString_Man: "EncodeToString (bytes_of ''Man'') = ''TWFu''"
  by (simp add: bytes_of_def encodeStd_def)

lemma EncodeToString_Ma: "EncodeToString (bytes_of ''Ma'') = ''TWE=''"
  by (simp add: bytes_of_def encodeStd_def)

lemma EncodeToString_M: "EncodeToString (bytes_of ''M'') = ''TQ==''"
  by (simp add: bytes_of_def encodeStd_def)

section \<open>The loop of FindDups\<close>

lemma FindDups_body_Some:
  assumes "Envelope msg = Some env"
  shows "\<exists>st'. FindDups_body timeString mbox ign lod msg st = Some st'
           \<and> uniqueIDs st' = insert (messageID timeString ign env) (uniqueIDs st)
           \<and> dups st' = (if messageID timeString ign env \<in> uniqueIDs st
                          then dups st @ [Uid msg] else dups st)"
  using assms by (simp add: FindDups_body_def Let_def insert_absorb)

lemma FindDups_loop_snoc:
  "FindDups_loop timeString mbox ign lod (msgs @ [msg]) st =
     (case FindDups_loop timeString mbox ign lod msgs st of
        Inl st' \<Rightarrow> Inl st'
      | Inr st' \<Rightarrow>
          (case FindDups_body timeString mbox ign lod msg st' of
             None \<Rightarrow> Inl st' | Some st'' \<Rightarrow> Inr st''))"
  by (induction msgs arbitrary: st) (simp_all split: option.splits)

lemma later_occurrences_snoc:
  "later_occurrences key (xs @ [x]) =
     later_occurrences key xs @ (if key x \<in> key ` set xs then [x] else [])"
proof -
  have "filter (seen_before key (xs @ [x])) [0..<length xs]
      = filter (seen_before key xs) [0..<length xs]"
    by (rule filter_cong) (auto simp: seen_before_def nth_append)
  moreover have "map (\<lambda>i. (xs @ [x]) ! i) (filter (seen_before key xs) [0..<length xs])
      = map (\<lambda>i. xs ! i) (filter (seen_before key xs) [0..<length xs])"
    by (rule map_cong) (auto simp: nth_append)
  ultimately show ?thesis
    by (simp add: later_occurrences_def seen_before_def)
qed

lemma card_later_occurrences:
  "card (key ` set xs) + length (later_occurrences key xs) = length xs"
proof (induction xs rule: rev_induct)
  case Nil
  show ?case by (simp add: later_occurrences_def)
next
  case (snoc x xs)
  then show ?case
    by (simp add: later_occurrences_snoc card_insert_if)
qed

text \<open>
  The invariant of the loop, by induction on the stream from its end: after a stream
  whose records all carry an envelope the loop has not panicked, the set holds the
  fingerprints of the stream, and \<open>dups\<close> the identifiers of its later occurrences.
\<close>

lemma FindDups_loop_spec:
  assumes "list_all (\<lambda>msg. Envelope msg \<noteq> None) msgs"
  shows "\<exists>st'. FindDups_loop timeString mbox ign lod msgs
                 \<lparr>uniqueIDs = {}, dups = [], printed = out\<rparr> = Inr st'
           \<and> uniqueIDs st' = fingerprint timeString ign ` set msgs
           \<and> dups st' = map Uid (later_occurrences (fingerprint timeString ign) msgs)"
  using assms
proof (induction msgs rule: rev_induct)
  case Nil
  show ?case by (simp add: later_occurrences_def)
next
  case (snoc msg msgs)
  then obtain st' where st':
      "FindDups_loop timeString mbox ign lod msgs
         \<lparr>uniqueIDs = {}, dups = [], printed = out\<rparr> = Inr st'"
      "uniqueIDs st' = fingerprint timeString ign ` set msgs"
      "dups st' = map Uid (later_occurrences (fingerprint timeString ign) msgs)"
    by auto
  from snoc.prems obtain env where env: "Envelope msg = Some env"
    by auto
  from FindDups_body_Some [OF env, of timeString mbox ign lod st']
  obtain st'' where st'':
      "FindDups_body timeString mbox ign lod msg st' = Some st''"
      "uniqueIDs st'' = insert (messageID timeString ign env) (uniqueIDs st')"
      "dups st'' = (if messageID timeString ign env \<in> uniqueIDs st'
                    then dups st' @ [Uid msg] else dups st')"
    by blast
  have fp: "fingerprint timeString ign msg = messageID timeString ign env"
    by (simp add: fingerprint_def env)
  show ?case
    using st' st''
    by (simp add: FindDups_loop_snoc later_occurrences_snoc fp)
qed

lemma ex_fingerprints:
  "fingerprint ex_time False (ex_msg uid (c # cs)) = c # cs"
  by (simp add: fingerprint_def ex_msg_def messageID_def ex_env_def)

lemma ex_msgs_envelopes: "list_all (\<lambda>msg. Envelope msg \<noteq> None) ex_msgs"
  by (simp add: ex_msgs_def ex_msg_def)

lemma ex_msgs_later: "later_occurrences (fingerprint ex_time False) ex_msgs = [ex_msg 4 ''<b>'']"
  by (simp add: later_occurrences_def seen_before_def ex_msgs_def ex_fingerprints upt_rec)

lemma ex_msgs_fingerprints:
  "fingerprint ex_time False ` set ex_msgs = {''<a>'', ''<b>'', ''<c>''}"
  by (auto simp: ex_msgs_def ex_fingerprints)

lemma FindDups_select_ok:
  assumes "select_rsp c mbox False (conn w) = (Inr status, s1)"
      and "fetch_rsp c [(1, MaxUint32)] [FetchUid, FetchEnvelope] s1 = ((msgs, err), s2)"
  shows "fst (FindDups c timeString mbox ign lod w) =
           (case FindDups_loop timeString mbox ign lod msgs
                   \<lparr>uniqueIDs = {}, dups = [],
                    printed = stdout w
                      @ Sprintln [''MBOX UID'', FormatUint (unat (UidValidity status))]\<rparr> of
              Inl st \<Rightarrow> None
            | Inr st \<Rightarrow> Some (dups st, err))"
  using assms
  by (simp add: FindDups_def Select_def UidFetch_def AddRange_def Let_def split: sum.splits)

text \<open>
  A record without an envelope stops the loop with a panic, whatever follows it: this is
  why the statements about the loop ask for an envelope in every record.
\<close>

lemma FindDups_loop_nil_Envelope:
  assumes "Envelope msg = None"
  shows "FindDups_loop timeString mbox ign lod (msg # msgs) st = Inl st"
  using assms by (simp add: FindDups_body_def)

text \<open>What FindDups prints for the four example messages when every line is listed.\<close>

lemma FindDups_ex_stdout:
  "stdout (snd (FindDups (ex_client None (ex_msgs, None) [] None)
                  ex_time ''INBOX'' False False ex_world))
     = ''MBOX UID 1'' @ newline
       @ ''INBOX: hi 1 <a>:'' @ newline
       @ ''INBOX: hi 2 <b>:'' @ newline
       @ ''INBOX: hi 3 <c>:'' @ newline
       @ ''INBOX: hi 4 <b>:duplicate'' @ newline"
  by (simp add: FindDups_def Select_def UidFetch_def AddRange_def Let_def ex_client_def
      ex_world_def ex_msgs_def ex_msg_def ex_env_def FindDups_body_def messageID_def
      Sprintf_line_def FormatUint.simps digits_def)

section \<open>The message identifier on the example envelope\<close>

lemma sha1_sum_Nil_bytes:
  "sha1_sum [] =
     [218, 57, 163, 238, 94, 107, 75, 13, 50, 85, 191, 239, 149, 96, 24, 144, 175, 216, 7, 9]"
  by (simp add: sha1_sum_Nil putUint32_def)

lemma builder_ex_env:
  "builder ex_time ex_env = ''date:'' @ newline @ ''subject:hi'' @ newline @ ''in-reply-to:''"
  by (simp add: builder_def ex_env_def ex_time_def)

lemma sha1_sum_ex_env:
  "sha1_sum (bytes_of (builder ex_time ex_env)) =
     sha1_out (0xE3FC7EE8, 0xFA66C7EC, 0x63F33C2C, 0xFEA2E9BC, 0x0DA71030)"
  unfolding builder_ex_env
  by (simp add: bytes_of_def newline_def sha1_eval del: sha1_step.simps sha1_add.simps)

lemma messageID_ex_env:
  "messageID ex_time True ex_env
     = ''ZGF0ZToKc3ViamVjdDpoaQppbi1yZXBseS10bzraOaPuXmtLDTJVv++VYBiQr9gHCQ==''"
  by (simp add: messageID_def sha1_New_def hash_Sum_def builder_ex_env newline_def bytes_of_def
      sha1_sum_Nil_bytes encodeStd_def)

lemma messageID_ex_env_reply:
  "messageID ex_time True (ex_env\<lparr>InReplyTo := ''<x>''\<rparr>)
     = ''ZGF0ZToKc3ViamVjdDpoaQppbi1yZXBseS10bzo8eD7aOaPuXmtLDTJVv++VYBiQr9gHCQ==''"
  by (simp add: messageID_def sha1_New_def hash_Sum_def builder_def ex_env_def ex_time_def
      newline_def bytes_of_def sha1_sum_Nil_bytes encodeStd_def)

lemma digest_ex_env:
  "EncodeToString (sha1_sum (bytes_of (builder ex_time ex_env))) = ''4/x+6Ppmx+xj8zws/qLpvA2nEDA=''"
  by (simp add: sha1_sum_ex_env putUint32_def encodeStd_def)

lemma messageID_ex_from:
  "messageID ex_time True (ex_from name)
     = ''ZGF0ZToKc3ViamVjdDpoaQpmcm9tOmFsaWNlQGV4YW1wbGUub3JnCmluLXJlcGx5LXRvOto5o+5ea0sNMlW/75VgGJCv2AcJ''"
  by (simp add: messageID_def sha1_New_def hash_Sum_def builder_def ex_from_def ex_env_def
      ex_time_def Address_string_def newline_def bytes_of_def sha1_sum_Nil_bytes encodeStd_def)

text \<open>
  The text of \<open>builder\<close> is built from the printed date, the subject, the mailbox and host
  names of the addresses of the six lists, and the in-reply-to field.
\<close>

lemma builder_reads:
  assumes "timeString (Date e1) = timeString (Date e2)"
      and "Subject e1 = Subject e2"
      and "map (\<lambda>a. (MailboxName a, HostName a)) (From e1)
             = map (\<lambda>a. (MailboxName a, HostName a)) (From e2)"
      and "map (\<lambda>a. (MailboxName a, HostName a)) (Sender e1)
             = map (\<lambda>a. (MailboxName a, HostName a)) (Sender e2)"
      and "map (\<lambda>a. (MailboxName a, HostName a)) (ReplyTo e1)
             = map (\<lambda>a. (MailboxName a, HostName a)) (ReplyTo e2)"
      and "map (\<lambda>a. (MailboxName a, HostName a)) (To e1)
             = map (\<lambda>a. (MailboxName a, HostName a)) (To e2)"
      and "map (\<lambda>a. (MailboxName a, HostName a)) (Cc e1)
             = map (\<lambda>a. (MailboxName a, HostName a)) (Cc e2)"
      and "map (\<lambda>a. (MailboxName a, HostName a)) (Bcc e1)
             = map (\<lambda>a. (MailboxName a, HostName a)) (Bcc e2)"
      and "InReplyTo e1 = InReplyTo e2"
  shows "builder timeString e1 = builder timeString e2"
proof -
  have tagged: "map (\<lambda>f. newline @ tag @ Address_string f) xs
      = map (\<lambda>p. newline @ tag @ fst p @ ''@'' @ snd p)
          (map (\<lambda>a. (MailboxName a, HostName a)) xs)" for tag and xs :: "Address list"
    by (simp add: Address_string_def)
  show ?thesis
    unfolding builder_def tagged using assms by simp
qed

lemma length_builder: "5 \<le> length (builder timeString env)"
  by (simp add: builder_def)

section \<open>The loop of RemoveDups\<close>

text \<open>
  The requests of the loop are the mark-deleted requests of a prefix of the list, in its
  order; all but the last succeeded; the loop returns an error exactly when the last one
  failed, and otherwise it has marked the whole list.
\<close>

lemma RemoveDups_loop_trace:
  "RemoveDups_loop c uids w = (r, w') \<Longrightarrow>
   \<exists>k marks. k \<le> length uids
     \<and> trace w' = trace w @ marks
     \<and> map fst marks = map mark_deleted (take k uids)
     \<and> list_all (\<lambda>ev. snd ev = None) (butlast marks)
     \<and> (case r of
          Some err \<Rightarrow> marks \<noteq> [] \<and> snd (last marks) = Some err
        | None \<Rightarrow> k = length uids \<and> list_all (\<lambda>ev. snd ev = None) marks)"
proof (induction uids arbitrary: w)
  case Nil
  then show ?case by simp
next
  case (Cons uid uids)
  obtain e w1 where st: "UidStore c [(uid, uid)] (AddFlags, True) [DeletedFlag] w = (e, w1)"
    by (cases "UidStore c [(uid, uid)] (AddFlags, True) [DeletedFlag] w")
  then have tr: "trace w1 = trace w @ [(mark_deleted uid, e)]"
    by (auto simp: UidStore_def mark_deleted_def split: prod.splits)
  show ?case
  proof (cases e)
    case (Some err)
    with Cons.prems st have "r = Some err" "w' = w1"
      by (simp_all add: AddNum_def FormatFlagsOp_def)
    with tr Some show ?thesis
      by (intro exI [of _ "Suc 0"] exI [of _ "[(mark_deleted uid, Some err)]"]) simp
  next
    case None
    with Cons.prems st have "RemoveDups_loop c uids w1 = (r, w')"
      by (simp add: AddNum_def FormatFlagsOp_def)
    from Cons.IH [OF this] obtain k marks where km:
        "k \<le> length uids" "trace w' = trace w1 @ marks"
        "map fst marks = map mark_deleted (take k uids)"
        "list_all (\<lambda>ev. snd ev = None) (butlast marks)"
        "case r of
          Some err \<Rightarrow> marks \<noteq> [] \<and> snd (last marks) = Some err
        | None \<Rightarrow> k = length uids \<and> list_all (\<lambda>ev. snd ev = None) marks"
      by blast
    show ?thesis
      using km tr None
      by (intro exI [of _ "Suc k"] exI [of _ "(mark_deleted uid, None) # marks"])
         (auto split: option.splits)
  qed
qed

section \<open>The claims\<close>

text \<open>
  C1. When the selection succeeds and the fetch delivers the finite stream \<open>msgs\<close>, every
  record with an envelope, the list FindDups returns is the list of the unique identifiers
  of the records whose Fingerprint an earlier record of the stream has, in arrival order
  (returned with the error of the fetch, if any). In the loop that computes it the
  Duplicate List \<open>dups\<close> ends as that list, the Seen Set \<open>uniqueIDs\<close> ends as the set of the
  Fingerprints of the stream, and its size is the length of the stream minus the number of
  duplicates. When record \<open>i\<close> arrives the Seen Set holds the Fingerprints of the records
  before it, and the iteration inserts the Fingerprint of record \<open>i\<close> exactly when it is
  not yet there (its first occurrence); otherwise the set stays as it is and the identifier
  is appended.
\<close>

theorem FindDups_duplicates:
  assumes "select_rsp c mbox False (conn w) = (Inr status, s1)"
      and "fetch_rsp c [(1, MaxUint32)] [FetchUid, FetchEnvelope] s1 = ((msgs, err), s2)"
      and "list_all (\<lambda>msg. Envelope msg \<noteq> None) msgs"
  shows "fst (FindDups c timeString mbox ign lod w)
           = Some (map Uid (later_occurrences (fingerprint timeString ign) msgs), err)
       \<and> (\<exists>st'. FindDups_loop timeString mbox ign lod msgs
                 \<lparr>uniqueIDs = {}, dups = [], printed = out\<rparr> = Inr st'
           \<and> dups st' = map Uid (later_occurrences (fingerprint timeString ign) msgs)
           \<and> uniqueIDs st' = fingerprint timeString ign ` set msgs
           \<and> card (uniqueIDs st') + length (dups st') = length msgs)
       \<and> (\<forall>i < length msgs. \<exists>st st'.
             FindDups_loop timeString mbox ign lod (take i msgs)
                 \<lparr>uniqueIDs = {}, dups = [], printed = out\<rparr> = Inr st
           \<and> uniqueIDs st = fingerprint timeString ign ` set (take i msgs)
           \<and> FindDups_body timeString mbox ign lod (msgs ! i) st = Some st'
           \<and> (if seen_before (fingerprint timeString ign) msgs i
                then uniqueIDs st' = uniqueIDs st \<and> dups st' = dups st @ [Uid (msgs ! i)]
                else fingerprint timeString ign (msgs ! i) \<notin> uniqueIDs st
                   \<and> uniqueIDs st' = insert (fingerprint timeString ign (msgs ! i)) (uniqueIDs st)
                   \<and> dups st' = dups st))"
proof (intro conjI allI impI)
  from FindDups_loop_spec [OF assms(3), of timeString mbox ign lod
         "stdout w @ Sprintln [''MBOX UID'', FormatUint (unat (UidValidity status))]"]
  obtain st' where
      "FindDups_loop timeString mbox ign lod msgs
         \<lparr>uniqueIDs = {}, dups = [],
          printed = stdout w
            @ Sprintln [''MBOX UID'', FormatUint (unat (UidValidity status))]\<rparr> = Inr st'"
      "dups st' = map Uid (later_occurrences (fingerprint timeString ign) msgs)"
    by blast
  then show "fst (FindDups c timeString mbox ign lod w)
           = Some (map Uid (later_occurrences (fingerprint timeString ign) msgs), err)"
    by (simp add: FindDups_select_ok [OF assms(1,2)])
next
  from FindDups_loop_spec [OF assms(3), of timeString mbox ign lod out]
  obtain st' where st':
      "FindDups_loop timeString mbox ign lod msgs
         \<lparr>uniqueIDs = {}, dups = [], printed = out\<rparr> = Inr st'"
      "uniqueIDs st' = fingerprint timeString ign ` set msgs"
      "dups st' = map Uid (later_occurrences (fingerprint timeString ign) msgs)"
    by blast
  have "card (uniqueIDs st') + length (dups st') = length msgs"
    using st'(2,3) card_later_occurrences [of "fingerprint timeString ign" msgs] by simp
  with st' show "\<exists>st'. FindDups_loop timeString mbox ign lod msgs
                 \<lparr>uniqueIDs = {}, dups = [], printed = out\<rparr> = Inr st'
           \<and> dups st' = map Uid (later_occurrences (fingerprint timeString ign) msgs)
           \<and> uniqueIDs st' = fingerprint timeString ign ` set msgs
           \<and> card (uniqueIDs st') + length (dups st') = length msgs"
    by blast
next
  fix i assume i: "i < length msgs"
  have "list_all (\<lambda>msg. Envelope msg \<noteq> None) (take i msgs)"
    using assms(3) by (auto simp: list_all_iff dest: in_set_takeD)
  from FindDups_loop_spec [OF this, of timeString mbox ign lod out]
  obtain st where st:
      "FindDups_loop timeString mbox ign lod (take i msgs)
         \<lparr>uniqueIDs = {}, dups = [], printed = out\<rparr> = Inr st"
      "uniqueIDs st = fingerprint timeString ign ` set (take i msgs)"
    by blast
  from assms(3) i have "Envelope (msgs ! i) \<noteq> None"
    by (simp add: list_all_length)
  then obtain env where env: "Envelope (msgs ! i) = Some env"
    by auto
  from FindDups_body_Some [OF env, of timeString mbox ign lod st]
  obtain st' where st':
      "FindDups_body timeString mbox ign lod (msgs ! i) st = Some st'"
      "uniqueIDs st' = insert (messageID timeString ign env) (uniqueIDs st)"
      "dups st' = (if messageID timeString ign env \<in> uniqueIDs st
                   then dups st @ [Uid (msgs ! i)] else dups st)"
    by blast
  have fp: "fingerprint timeString ign (msgs ! i) = messageID timeString ign env"
    by (simp add: fingerprint_def env)
  show "\<exists>st st'.
           FindDups_loop timeString mbox ign lod (take i msgs)
                 \<lparr>uniqueIDs = {}, dups = [], printed = out\<rparr> = Inr st
           \<and> uniqueIDs st = fingerprint timeString ign ` set (take i msgs)
           \<and> FindDups_body timeString mbox ign lod (msgs ! i) st = Some st'
           \<and> (if seen_before (fingerprint timeString ign) msgs i
                then uniqueIDs st' = uniqueIDs st \<and> dups st' = dups st @ [Uid (msgs ! i)]
                else fingerprint timeString ign (msgs ! i) \<notin> uniqueIDs st
                   \<and> uniqueIDs st' = insert (fingerprint timeString ign (msgs ! i)) (uniqueIDs st)
                   \<and> dups st' = dups st)"
    using st st' by (auto simp: seen_before_def fp insert_absorb)
qed

text \<open>
  The four example messages, the fourth a duplicate of the second: FindDups returns the
  list \<open>[4]\<close> and no error, and the Seen Set ends with three entries.
\<close>

theorem FindDups_duplicates_witness:
  "select_rsp (ex_client None (ex_msgs, None) [] None) ''INBOX'' False (conn ex_world)
     = (Inr \<lparr>UidValidity = 1\<rparr>, ())
   \<and> fetch_rsp (ex_client None (ex_msgs, None) [] None)
       [(1, MaxUint32)] [FetchUid, FetchEnvelope] () = ((ex_msgs, None), ())
   \<and> list_all (\<lambda>msg. Envelope msg \<noteq> None) ex_msgs
   \<and> fst (FindDups (ex_client None (ex_msgs, None) [] None) ex_time ''INBOX'' False True ex_world)
       = Some ([4], None)
   \<and> (\<exists>st'. FindDups_loop ex_time ''INBOX'' False True ex_msgs
                 \<lparr>uniqueIDs = {}, dups = [], printed = []\<rparr> = Inr st'
           \<and> dups st' = [4]
           \<and> uniqueIDs st' = {''<a>'', ''<b>'', ''<c>''}
           \<and> card (uniqueIDs st') + length (dups st') = 4)"
proof -
  have s: "select_rsp (ex_client None (ex_msgs, None) [] None) ''INBOX'' False (conn ex_world)
     = (Inr \<lparr>UidValidity = 1\<rparr>, ())"
    by (simp add: ex_client_def)
  have f: "fetch_rsp (ex_client None (ex_msgs, None) [] None)
       [(1, MaxUint32)] [FetchUid, FetchEnvelope] () = ((ex_msgs, None), ())"
    by (simp add: ex_client_def)
  have n: "length ex_msgs = 4"
    by (simp add: ex_msgs_def)
  from FindDups_duplicates [OF s f ex_msgs_envelopes, of ex_time False True "[]"]
  show ?thesis
    unfolding ex_msgs_later ex_msgs_fingerprints n
    using s f ex_msgs_envelopes by (simp add: ex_msg_def)
qed

text \<open>
  C2. For every envelope whose protocol message identifier is not empty, the message
  identifier computed when \<open>ignoreMessageID\<close> is false (the use-protocol-id mode) is that
  identifier, unchanged.
\<close>

theorem messageID_verbatim:
  assumes "MessageId env \<noteq> []"
  shows "messageID timeString False env = MessageId env"
  using assms by (simp add: messageID_def)

theorem messageID_verbatim_witness:
  "MessageId (ex_env\<lparr>MessageId := ''<a@b>''\<rparr>) \<noteq> []
   \<and> messageID ex_time False (ex_env\<lparr>MessageId := ''<a@b>''\<rparr>) = ''<a@b>''"
  using messageID_verbatim [of "ex_env\<lparr>MessageId := ''<a@b>''\<rparr>" ex_time]
  by simp

text \<open>
  C3. When the selection succeeds and the fetch delivers the records \<open>msgs\<close>, all with an
  envelope, and then reports the failure \<open>err\<close>, FindDups returns the Duplicate List of all
  of \<open>msgs\<close> (the identifiers of the later occurrences of the whole stream) together with
  the failure \<open>err\<close>, which is not nil.
\<close>

theorem FindDups_fetch_error:
  assumes "select_rsp c mbox False (conn w) = (Inr status, s1)"
      and "fetch_rsp c [(1, MaxUint32)] [FetchUid, FetchEnvelope] s1 = ((msgs, Some err), s2)"
      and "list_all (\<lambda>msg. Envelope msg \<noteq> None) msgs"
  shows "fst (FindDups c timeString mbox ign lod w) =
           Some (map Uid (later_occurrences (fingerprint timeString ign) msgs), Some err)"
proof -
  from FindDups_loop_spec [OF assms(3), of timeString mbox ign lod
         "stdout w @ Sprintln [''MBOX UID'', FormatUint (unat (UidValidity status))]"]
  obtain st' where
      "FindDups_loop timeString mbox ign lod msgs
         \<lparr>uniqueIDs = {}, dups = [],
          printed = stdout w
            @ Sprintln [''MBOX UID'', FormatUint (unat (UidValidity status))]\<rparr> = Inr st'"
      "dups st' = map Uid (later_occurrences (fingerprint timeString ign) msgs)"
    by blast
  then show ?thesis
    by (simp add: FindDups_select_ok [OF assms(1,2)])
qed

text \<open>
  The four example messages are delivered and the fetch then fails: the result is the
  list \<open>[4]\<close> and the failure.
\<close>

theorem FindDups_fetch_error_witness:
  "select_rsp (ex_client None (ex_msgs, Some (Error ''connection closed'')) [] None)
       ''INBOX'' False (conn ex_world) = (Inr \<lparr>UidValidity = 1\<rparr>, ())
   \<and> fetch_rsp (ex_client None (ex_msgs, Some (Error ''connection closed'')) [] None)
       [(1, MaxUint32)] [FetchUid, FetchEnvelope] ()
     = ((ex_msgs, Some (Error ''connection closed'')), ())
   \<and> list_all (\<lambda>msg. Envelope msg \<noteq> None) ex_msgs
   \<and> fst (FindDups (ex_client None (ex_msgs, Some (Error ''connection closed'')) [] None)
         ex_time ''INBOX'' False True ex_world) = Some ([4], Some (Error ''connection closed''))"
proof -
  have s: "select_rsp (ex_client None (ex_msgs, Some (Error ''connection closed'')) [] None)
       ''INBOX'' False (conn ex_world) = (Inr \<lparr>UidValidity = 1\<rparr>, ())"
    by (simp add: ex_client_def)
  have f: "fetch_rsp (ex_client None (ex_msgs, Some (Error ''connection closed'')) [] None)
       [(1, MaxUint32)] [FetchUid, FetchEnvelope] ()
     = ((ex_msgs, Some (Error ''connection closed'')), ())"
    by (simp add: ex_client_def)
  from FindDups_fetch_error [OF s f ex_msgs_envelopes, of ex_time False True]
  show ?thesis
    using s f ex_msgs_envelopes by (simp add: ex_msgs_later ex_msg_def)
qed

text \<open>
  C4. After a successful selection, the requests of RemoveDups are the mark-deleted
  requests of a prefix of the identifier list, one per identifier and in list order, all
  but the last of them successful. Either the last mark failed: RemoveDups returns that
  failure and the trace ends there, with no further mark and no purge. Or every
  identifier was marked successfully: the purge follows and its result is the result of
  RemoveDups, so RemoveDups succeeds only if every mark and the purge succeed.
\<close>

theorem RemoveDups_marks_then_purge:
  assumes "select_rsp c mbox False (conn w) = (Inr status, s)"
      and "RemoveDups c mbox uids w = (r, w')"
  shows "\<exists>k marks. k \<le> length uids
     \<and> map fst marks = map mark_deleted (take k uids)
     \<and> list_all (\<lambda>ev. snd ev = None) (butlast marks)
     \<and> ((\<exists>err. r = Some err \<and> marks \<noteq> [] \<and> snd (last marks) = Some err
            \<and> trace w' = trace w @ [(CallSelect mbox False, None)] @ marks)
        \<or> (k = length uids \<and> list_all (\<lambda>ev. snd ev = None) marks
            \<and> trace w' = trace w @ [(CallSelect mbox False, None)] @ marks
                           @ [(CallExpunge, r)]))"
proof -
  obtain w1 where w1: "Select c mbox False w = (Inr status, w1)"
      "trace w1 = trace w @ [(CallSelect mbox False, None)]"
    using assms(1) by (simp add: Select_def)
  obtain r1 w2 where l: "RemoveDups_loop c uids w1 = (r1, w2)"
    by (cases "RemoveDups_loop c uids w1")
  from RemoveDups_loop_trace [OF l] obtain k marks where km:
      "k \<le> length uids" "trace w2 = trace w1 @ marks"
      "map fst marks = map mark_deleted (take k uids)"
      "list_all (\<lambda>ev. snd ev = None) (butlast marks)"
      "case r1 of
          Some err \<Rightarrow> marks \<noteq> [] \<and> snd (last marks) = Some err
        | None \<Rightarrow> k = length uids \<and> list_all (\<lambda>ev. snd ev = None) marks"
    by blast
  show ?thesis
  proof (cases r1)
    case (Some err)
    with assms(2) w1 l have "r = Some err" "w' = w2"
      by (simp_all add: RemoveDups_def)
    with km w1 Some show ?thesis
      by (intro exI [of _ k] exI [of _ marks]) simp
  next
    case None
    with assms(2) w1 l have e: "Expunge c w2 = (r, w')"
      by (simp add: RemoveDups_def)
    then have "trace w' = trace w2 @ [(CallExpunge, r)]"
      by (auto simp: Expunge_def split: prod.splits)
    with km w1 None show ?thesis
      by (intro exI [of _ k] exI [of _ marks]) simp
  qed
qed

text \<open>
  The identifiers 10, 20, 30, where marking 20 fails: RemoveDups returns the failure, 10
  and 20 were marked, 30 was not, and there is no purge.
\<close>

theorem RemoveDups_marks_then_purge_witness:
  "select_rsp (ex_client None ([], None) [20] None) ''INBOX'' False (conn ex_world)
     = (Inr \<lparr>UidValidity = 1\<rparr>, ())
   \<and> RemoveDups (ex_client None ([], None) [20] None) ''INBOX'' [10, 20, 30] ex_world
     = (Some (Error ''NO''),
        \<lparr>conn = (),
         trace = [(CallSelect ''INBOX'' False, None),
                  (mark_deleted 10, None),
                  (mark_deleted 20, Some (Error ''NO''))],
         stdout = []\<rparr>)"
proof -
  have s: "select_rsp (ex_client None ([], None) [20] None) ''INBOX'' False (conn ex_world)
     = (Inr \<lparr>UidValidity = 1\<rparr>, ())"
    by (simp add: ex_client_def)
  have r: "RemoveDups (ex_client None ([], None) [20] None) ''INBOX'' [10, 20, 30] ex_world
     = (Some (Error ''NO''),
        \<lparr>conn = (),
         trace = [(CallSelect ''INBOX'' False, None),
                  (mark_deleted 10, None),
                  (mark_deleted 20, Some (Error ''NO''))],
         stdout = []\<rparr>)"
    by (simp add: RemoveDups_def Select_def UidStore_def Expunge_def ex_client_def ex_world_def
        AddNum_def FormatFlagsOp_def mark_deleted_def)
  from RemoveDups_marks_then_purge [OF s r] s r show ?thesis
    by simp
qed

text \<open>
  C5, as amended. Two envelopes with the same subject, the same printed timestamp, the
  same address lists in all six roles (from, sender, reply-to, to, cc, bcc) and the same
  in-reply-to field have the same message identifier when \<open>ignoreMessageID\<close> is true (the
  content-hash mode).
\<close>

theorem messageID_content_hash_equal:
  assumes "Subject e1 = Subject e2"
      and "timeString (Date e1) = timeString (Date e2)"
      and "From e1 = From e2" and "Sender e1 = Sender e2" and "ReplyTo e1 = ReplyTo e2"
      and "To e1 = To e2" and "Cc e1 = Cc e2" and "Bcc e1 = Bcc e2"
      and "InReplyTo e1 = InReplyTo e2"
  shows "messageID timeString True e1 = messageID timeString True e2"
  using assms by (simp add: messageID_def builder_def)

text \<open>Two envelopes that differ in the protocol message identifier only.\<close>

theorem messageID_content_hash_equal_witness:
  "Subject (ex_env\<lparr>MessageId := ''<a>''\<rparr>) = Subject (ex_env\<lparr>MessageId := ''<b>''\<rparr>)
   \<and> InReplyTo (ex_env\<lparr>MessageId := ''<a>''\<rparr>) = InReplyTo (ex_env\<lparr>MessageId := ''<b>''\<rparr>)
   \<and> ex_env\<lparr>MessageId := ''<a>''\<rparr> \<noteq> ex_env\<lparr>MessageId := ''<b>''\<rparr>
   \<and> messageID ex_time True (ex_env\<lparr>MessageId := ''<a>''\<rparr>)
       = messageID ex_time True (ex_env\<lparr>MessageId := ''<b>''\<rparr>)"
  using messageID_content_hash_equal
          [of "ex_env\<lparr>MessageId := ''<a>''\<rparr>" "ex_env\<lparr>MessageId := ''<b>''\<rparr>" ex_time]
  by (simp add: ex_env_def)

text \<open>
  C5 as stated fails: the example envelope and the same envelope with the in-reply-to
  field \<open><x>\<close> have the same subject, the same printed timestamp and the same address
  lists in every role, and different message identifiers in the content-hash mode, since
  line 161 writes the in-reply-to field into the hashed text.
\<close>

theorem messageID_in_reply_to_counterexample:
  "Subject ex_env = Subject (ex_env\<lparr>InReplyTo := ''<x>''\<rparr>)
   \<and> ex_time (Date ex_env) = ex_time (Date (ex_env\<lparr>InReplyTo := ''<x>''\<rparr>))
   \<and> From ex_env = From (ex_env\<lparr>InReplyTo := ''<x>''\<rparr>)
   \<and> Sender ex_env = Sender (ex_env\<lparr>InReplyTo := ''<x>''\<rparr>)
   \<and> ReplyTo ex_env = ReplyTo (ex_env\<lparr>InReplyTo := ''<x>''\<rparr>)
   \<and> To ex_env = To (ex_env\<lparr>InReplyTo := ''<x>''\<rparr>)
   \<and> Cc ex_env = Cc (ex_env\<lparr>InReplyTo := ''<x>''\<rparr>)
   \<and> Bcc ex_env = Bcc (ex_env\<lparr>InReplyTo := ''<x>''\<rparr>)
   \<and> messageID ex_time True ex_env
       \<noteq> messageID ex_time True (ex_env\<lparr>InReplyTo := ''<x>''\<rparr>)"
  by (simp add: messageID_ex_env messageID_ex_env_reply)

text \<open>
  C6 does not hold of the code. In the content-hash mode, or when the protocol identifier
  is empty, the message identifier is the base64 encoding of the tagged text itself
  followed by the SHA-1 digest of the empty message: \<open>hash.Sum(b)\<close> appends the digest of
  what was written to \<open>hash\<close>, which is nothing, to \<open>b\<close>. It is never the encoding of the
  digest of the text, which has 28 characters.
\<close>

theorem messageID_not_digest:
  assumes "ign \<or> MessageId env = []"
  shows "messageID timeString ign env
           = EncodeToString (bytes_of (builder timeString env) @ sha1_sum [])
       \<and> messageID timeString ign env
           \<noteq> EncodeToString (sha1_sum (bytes_of (builder timeString env)))"
proof -
  have eq: "messageID timeString ign env
           = EncodeToString (bytes_of (builder timeString env) @ sha1_sum [])"
    using assms by (auto simp: messageID_def sha1_New_def hash_Sum_def)
  have "length (bytes_of (builder timeString env) @ sha1_sum []) \<ge> 25"
    using length_builder [of timeString env] by (simp add: bytes_of_def length_sha1_sum)
  then have "4 * ((length (bytes_of (builder timeString env) @ sha1_sum []) + 2) div 3) > 28"
    by presburger
  then have "length (messageID timeString ign env)
      \<noteq> length (EncodeToString (sha1_sum (bytes_of (builder timeString env))))"
    by (simp add: eq length_EncodeToString length_sha1_sum)
  with eq show ?thesis
    by auto
qed

text \<open>
  On the example envelope the message identifier is the encoding of the 29 bytes of the
  text and the 20 bytes \<open>da39a3ee...\<close>; the encoding of the digest of the text is another
  string.
\<close>

theorem messageID_not_digest_witness:
  "(True \<or> MessageId ex_env = [])
   \<and> messageID ex_time True ex_env
       = ''ZGF0ZToKc3ViamVjdDpoaQppbi1yZXBseS10bzraOaPuXmtLDTJVv++VYBiQr9gHCQ==''
   \<and> EncodeToString (sha1_sum (bytes_of (builder ex_time ex_env)))
       = ''4/x+6Ppmx+xj8zws/qLpvA2nEDA=''"
  using messageID_not_digest [of True ex_env ex_time]
  by (simp add: messageID_ex_env digest_ex_env)




text \<open>
  C8. The Fingerprint is determined by the mode and by what lines 122 to 161 read from the
  envelope: the protocol message identifier, the printed date, the subject, the mailbox
  and host names of the addresses of the six lists in their order, and the in-reply-to
  field. Two envelopes that agree on these have the same message identifier in either
  mode, so two structurally equal envelopes do; and the iterations that classify two
  records with such envelopes look up and insert one and the same key, whatever the
  unique identifiers of the records, the mailbox name, the verbosity and the state of the
  loop (Seen Set, Duplicate List, output) at the two iterations. No time enters but the
  envelope's own date as printed.
\<close>

theorem messageID_reads_envelope_only:
  assumes "Envelope msg1 = Some e1" and "Envelope msg2 = Some e2"
      and "MessageId e1 = MessageId e2"
      and "timeString (Date e1) = timeString (Date e2)"
      and "Subject e1 = Subject e2"
      and "map (\<lambda>a. (MailboxName a, HostName a)) (From e1)
             = map (\<lambda>a. (MailboxName a, HostName a)) (From e2)"
      and "map (\<lambda>a. (MailboxName a, HostName a)) (Sender e1)
             = map (\<lambda>a. (MailboxName a, HostName a)) (Sender e2)"
      and "map (\<lambda>a. (MailboxName a, HostName a)) (ReplyTo e1)
             = map (\<lambda>a. (MailboxName a, HostName a)) (ReplyTo e2)"
      and "map (\<lambda>a. (MailboxName a, HostName a)) (To e1)
             = map (\<lambda>a. (MailboxName a, HostName a)) (To e2)"
      and "map (\<lambda>a. (MailboxName a, HostName a)) (Cc e1)
             = map (\<lambda>a. (MailboxName a, HostName a)) (Cc e2)"
      and "map (\<lambda>a. (MailboxName a, HostName a)) (Bcc e1)
             = map (\<lambda>a. (MailboxName a, HostName a)) (Bcc e2)"
      and "InReplyTo e1 = InReplyTo e2"
  shows "messageID timeString ign e1 = messageID timeString ign e2
       \<and> fingerprint timeString ign msg1 = fingerprint timeString ign msg2
       \<and> (\<exists>st1' st2'.
           FindDups_body timeString mbox1 ign lod1 msg1 st1 = Some st1'
         \<and> FindDups_body timeString mbox2 ign lod2 msg2 st2 = Some st2'
         \<and> uniqueIDs st1' = insert (messageID timeString ign e1) (uniqueIDs st1)
         \<and> uniqueIDs st2' = insert (messageID timeString ign e1) (uniqueIDs st2)
         \<and> dups st1' = (if messageID timeString ign e1 \<in> uniqueIDs st1
                         then dups st1 @ [Uid msg1] else dups st1)
         \<and> dups st2' = (if messageID timeString ign e1 \<in> uniqueIDs st2
                         then dups st2 @ [Uid msg2] else dups st2))"
proof -
  have b: "builder timeString e1 = builder timeString e2"
    by (rule builder_reads) (fact assms)+
  have m: "messageID timeString ign e1 = messageID timeString ign e2"
    using assms(3) by (simp add: messageID_def Let_def b)
  from FindDups_body_Some [OF assms(1), of timeString mbox1 ign lod1 st1]
  obtain st1' where st1':
      "FindDups_body timeString mbox1 ign lod1 msg1 st1 = Some st1'"
      "uniqueIDs st1' = insert (messageID timeString ign e1) (uniqueIDs st1)"
      "dups st1' = (if messageID timeString ign e1 \<in> uniqueIDs st1
                    then dups st1 @ [Uid msg1] else dups st1)"
    by blast
  from FindDups_body_Some [OF assms(2), of timeString mbox2 ign lod2 st2]
  obtain st2' where st2':
      "FindDups_body timeString mbox2 ign lod2 msg2 st2 = Some st2'"
      "uniqueIDs st2' = insert (messageID timeString ign e2) (uniqueIDs st2)"
      "dups st2' = (if messageID timeString ign e2 \<in> uniqueIDs st2
                    then dups st2 @ [Uid msg2] else dups st2)"
    by blast
  have "fingerprint timeString ign msg1 = fingerprint timeString ign msg2"
    using assms(1,2) m by (simp add: fingerprint_def)
  with m st1' st2' show ?thesis
    by simp
qed

text \<open>
  Two records with the unique identifiers 1 and 2 whose envelopes differ in the personal
  name of the sender, which is not read: one Fingerprint in the content-hash mode.
\<close>

theorem messageID_reads_envelope_only_witness:
  "Envelope \<lparr>Uid = 1, Envelope = Some (ex_from ''Alice'')\<rparr> = Some (ex_from ''Alice'')
   \<and> Envelope \<lparr>Uid = 2, Envelope = Some (ex_from ''A. Liddell'')\<rparr> = Some (ex_from ''A. Liddell'')
   \<and> ex_from ''Alice'' \<noteq> ex_from ''A. Liddell''
   \<and> map (\<lambda>a. (MailboxName a, HostName a)) (From (ex_from ''Alice''))
       = map (\<lambda>a. (MailboxName a, HostName a)) (From (ex_from ''A. Liddell''))
   \<and> messageID ex_time True (ex_from ''Alice'') = messageID ex_time True (ex_from ''A. Liddell'')
   \<and> messageID ex_time True (ex_from ''Alice'')
       = ''ZGF0ZToKc3ViamVjdDpoaQpmcm9tOmFsaWNlQGV4YW1wbGUub3JnCmluLXJlcGx5LXRvOto5o+5ea0sNMlW/75VgGJCv2AcJ''"
proof -
  have e1: "Envelope \<lparr>Uid = 1, Envelope = Some (ex_from ''Alice'')\<rparr> = Some (ex_from ''Alice'')"
    by simp
  have e2: "Envelope \<lparr>Uid = 2, Envelope = Some (ex_from ''A. Liddell'')\<rparr>
              = Some (ex_from ''A. Liddell'')"
    by simp
  have d: "ex_from ''Alice'' \<noteq> ex_from ''A. Liddell''"
    by (simp add: ex_from_def ex_env_def)
  have h:
    "MessageId (ex_from ''Alice'') = MessageId (ex_from ''A. Liddell'')"
    "ex_time (Date (ex_from ''Alice'')) = ex_time (Date (ex_from ''A. Liddell''))"
    "Subject (ex_from ''Alice'') = Subject (ex_from ''A. Liddell'')"
    "map (\<lambda>a. (MailboxName a, HostName a)) (From (ex_from ''Alice''))
       = map (\<lambda>a. (MailboxName a, HostName a)) (From (ex_from ''A. Liddell''))"
    "map (\<lambda>a. (MailboxName a, HostName a)) (Sender (ex_from ''Alice''))
       = map (\<lambda>a. (MailboxName a, HostName a)) (Sender (ex_from ''A. Liddell''))"
    "map (\<lambda>a. (MailboxName a, HostName a)) (ReplyTo (ex_from ''Alice''))
       = map (\<lambda>a. (MailboxName a, HostName a)) (ReplyTo (ex_from ''A. Liddell''))"
    "map (\<lambda>a. (MailboxName a, HostName a)) (To (ex_from ''Alice''))
       = map (\<lambda>a. (MailboxName a, HostName a)) (To (ex_from ''A. Liddell''))"
    "map (\<lambda>a. (MailboxName a, HostName a)) (Cc (ex_from ''Alice''))
       = map (\<lambda>a. (MailboxName a, HostName a)) (Cc (ex_from ''A. Liddell''))"
    "map (\<lambda>a. (MailboxName a, HostName a)) (Bcc (ex_from ''Alice''))
       = map (\<lambda>a. (MailboxName a, HostName a)) (Bcc (ex_from ''A. Liddell''))"
    "InReplyTo (ex_from ''Alice'') = InReplyTo (ex_from ''A. Liddell'')"
    by (simp_all add: ex_from_def ex_env_def ex_time_def)
  have eq: "messageID ex_time True (ex_from ''Alice'')
              = messageID ex_time True (ex_from ''A. Liddell'')"
    using messageID_reads_envelope_only [OF e1 e2 h, of True] by (rule conjunct1)
  show ?thesis
    using e1 e2 d h(4) eq messageID_ex_from [of "''Alice''"] by blast
qed

text \<open>
  C9. With an empty identifier list and a successful selection, RemoveDups makes two
  requests, the selection of the mailbox and the purge, and returns the result of the
  purge.
\<close>

theorem RemoveDups_empty_list:
  assumes "select_rsp c mbox False (conn w) = (Inr status, s)"
  shows "\<exists>r w'. RemoveDups c mbox [] w = (r, w')
       \<and> trace w' = trace w @ [(CallSelect mbox False, None), (CallExpunge, r)]
       \<and> r = fst (expunge_rsp c s)"
  using assms
  by (auto simp: RemoveDups_def Select_def Expunge_def split: prod.splits)

theorem RemoveDups_empty_list_witness:
  "select_rsp (ex_client None ([], None) [] None) ''INBOX'' False (conn ex_world)
     = (Inr \<lparr>UidValidity = 1\<rparr>, ())
   \<and> RemoveDups (ex_client None ([], None) [] None) ''INBOX'' [] ex_world
     = (None, \<lparr>conn = (),
               trace = [(CallSelect ''INBOX'' False, None), (CallExpunge, None)],
               stdout = []\<rparr>)"
proof -
  have s: "select_rsp (ex_client None ([], None) [] None) ''INBOX'' False (conn ex_world)
     = (Inr \<lparr>UidValidity = 1\<rparr>, ())"
    by (simp add: ex_client_def)
  from RemoveDups_empty_list [OF s] s show ?thesis
    by (simp add: RemoveDups_def Select_def Expunge_def ex_client_def ex_world_def)
qed

text \<open>
  C10. When the selection at the start of RemoveDups fails, RemoveDups returns that
  failure, and the failed selection is the only request it has made: no mark-deleted
  request and no purge.
\<close>

theorem RemoveDups_select_error:
  assumes "select_rsp c mbox False (conn w) = (Inl err, s)"
  shows "RemoveDups c mbox uids w
           = (Some err, w\<lparr>conn := s, trace := trace w @ [(CallSelect mbox False, Some err)]\<rparr>)"
  using assms by (simp add: RemoveDups_def Select_def)

theorem RemoveDups_select_error_witness:
  "select_rsp (ex_client (Some (Error ''no such mailbox'')) ([], None) [] None)
       ''INBOX'' False (conn ex_world) = (Inl (Error ''no such mailbox''), ())
   \<and> RemoveDups (ex_client (Some (Error ''no such mailbox'')) ([], None) [] None)
       ''INBOX'' [10, 20, 30] ex_world
     = (Some (Error ''no such mailbox''),
        \<lparr>conn = (), trace = [(CallSelect ''INBOX'' False, Some (Error ''no such mailbox''))],
         stdout = []\<rparr>)"
proof -
  have s: "select_rsp (ex_client (Some (Error ''no such mailbox'')) ([], None) [] None)
       ''INBOX'' False (conn ex_world) = (Inl (Error ''no such mailbox''), ())"
    by (simp add: ex_client_def)
  from RemoveDups_select_error [OF s, of "[10, 20, 30]"] s show ?thesis
    by (simp add: ex_world_def)
qed

end
